theory Spec2Isabelle
  imports Main
begin

section \<open>Values of the JavaScript runtime\<close>

text \<open>
  The type parameter \<open>T\<close> of \<open>useFetch<T>\<close> is erased at run time, and
  \<open>res.json() as Promise<T>\<close> is an unchecked cast: the value stored in \<open>data\<close> is
  whatever JSON value the body parses to, \<open>null\<close> included. JSON numbers are modelled as
  integers; no property below computes with them.
\<close>

datatype json =
    JNull
  | JBool bool
  | JNum int
  | JStr string
  | JArr "json list"
  | JObj "(string \<times> json) list"

text \<open>An \<open>Error\<close> object: its \<open>name\<close> and its \<open>message\<close>.\<close>

record js_error =
  err_name :: string
  message :: string

text \<open>\<open>new Error(msg)\<close>\<close>

definition Error :: "string \<Rightarrow> js_error" where
  "Error msg = \<lparr>err_name = ''Error'', message = msg\<rparr>"

text \<open>
  A settled promise: \<open>Inl e\<close> is rejected with reason \<open>e\<close>, \<open>Inr v\<close> is fulfilled with
  \<open>v\<close>. \<open>fetch\<close> and \<open>res.json()\<close> reject with error objects only (\<open>TypeError\<close>,
  \<open>SyntaxError\<close>, \<open>AbortError\<close>), never with \<open>null\<close>.
\<close>

type_synonym 'a settled = "js_error + 'a"

text \<open>
  The part of a \<open>Response\<close> that the hook reads: \<open>res.ok\<close>, \<open>res.status\<close>, and what
  the promise returned by \<open>res.json()\<close> settles to.
\<close>

record response =
  ok :: bool
  status :: nat
  json :: "json settled"

text \<open>The decimal rendering of a number in a template literal, \<open>`${res.status}`\<close>.\<close>

definition digit :: "nat \<Rightarrow> char" where
  "digit d = ''0123456789'' ! d"

fun show_nat :: "nat \<Rightarrow> string" where
  "show_nat n = (if n < 10 then [digit n] else show_nat (n div 10) @ [digit (n mod 10)])"

declare show_nat.simps [simp del]

section \<open>The request state\<close>

text \<open>
  \<open>interface FetchState<T> { data: T | null; loading: boolean; error: T | null }\<close>.
  \<open>data\<close> is absent when it is \<open>JNull\<close>. The \<open>error\<close> field holds the caught error
  object (\<open>err as any\<close>) or \<open>null\<close>, here \<open>None\<close>.
\<close>

record FetchState =
  data :: json
  loading :: bool
  error :: "js_error option"

section \<open>Promise chains\<close>

text \<open>
  A promise of the chain, once settled, together with the arguments of the \<open>setState\<close>
  calls that the handlers run so far have made, in order.
\<close>

type_synonym 'a promise = "FetchState list \<times> 'a settled"

text \<open>\<open>p.then(f)\<close>: \<open>f\<close> runs on fulfilment only; a rejection passes through.\<close>

fun then_p :: "'a promise \<Rightarrow> ('a \<Rightarrow> 'b promise) \<Rightarrow> 'b promise" where
  "then_p (calls, Inr v) f = (case f v of (calls', r) \<Rightarrow> (calls @ calls', r))"
| "then_p (calls, Inl e) f = (calls, Inl e)"

text \<open>\<open>p.catch(g)\<close>: \<open>g\<close> runs on rejection only; a fulfilment passes through.\<close>

fun catch_p :: "'a promise \<Rightarrow> (js_error \<Rightarrow> 'a promise) \<Rightarrow> 'a promise" where
  "catch_p (calls, Inl e) g = (case g e of (calls', r) \<Rightarrow> (calls @ calls', r))"
| "catch_p (calls, Inr v) g = (calls, Inr v)"

text \<open>\<open>throw e\<close> inside a handler rejects the promise the handler feeds.\<close>

definition throw :: "js_error \<Rightarrow> 'a promise" where
  "throw e = ([], Inl e)"

text \<open>A handler whose body is the single call \<open>setState(s)\<close> and returns \<open>undefined\<close>.\<close>

definition call_setState :: "FetchState \<Rightarrow> unit promise" where
  "call_setState s = ([s], Inr ())"

text \<open>
  Lines 23 to 33: the chain hung on \<open>fetch(url)\<close>, as a function of what \<open>fetch(url)\<close>
  settles to.
\<close>

definition fetch_chain :: "response settled \<Rightarrow> unit promise" where
  "fetch_chain fetched =
     catch_p
       (then_p
          (then_p ([], fetched)
             (\<lambda>res. if \<not> ok res
                     then throw (Error (''Request failed with status '' @ show_nat (status res)))
                     else ([], json res)))
          (\<lambda>d. call_setState \<lparr>data = d, loading = False, error = None\<rparr>))
       (\<lambda>err. call_setState \<lparr>data = JNull, loading = False, error = Some err\<rparr>)"

section \<open>The hook instance\<close>

text \<open>
  One instance of the hook inside React: the \<open>useState\<close> cell, the dependency array
  \<open>[url]\<close> of the last effect run (\<open>None\<close> before the first commit), whether the owning
  component is still mounted, and the retrievals issued and not yet settled, each with the
  number of the effect run that issued it and its url.
\<close>

record hook =
  state :: FetchState
  deps :: "string option"
  alive :: bool
  pending :: "(nat \<times> string) list"
  next_id :: nat

text \<open>
  What the hook does to the outside, labelled with the effect run it belongs to: a call of
  \<open>setState\<close>, a call of \<open>fetch\<close>, and a rejection that no handler caught.
\<close>

datatype action =
    SetState nat FetchState
  | Fetch nat string
  | Unhandled nat js_error

text \<open>Line 17: the argument of \<open>useState\<close>, and the instance before its first render.\<close>

definition initial_state :: FetchState where
  "initial_state = \<lparr>data = JNull, loading = True, error = None\<rparr>"

definition init_hook :: hook where
  "init_hook = \<lparr>state = initial_state, deps = None, alive = True, pending = [], next_id = 0\<rparr>"

text \<open>
  The setter of the cell. React drops an update of a component that is no longer mounted;
  the call itself is still made.
\<close>

definition setState :: "FetchState \<Rightarrow> hook \<Rightarrow> hook" where
  "setState s h = (if alive h then h\<lparr>state := s\<rparr> else h)"

text \<open>
  Lines 20 to 34, the effect body up to the point where \<open>fetch\<close> has been called: the
  reset to loading, then the retrieval is issued and stays outstanding. The effect returns
  no cleanup function.
\<close>

definition effect :: "string \<Rightarrow> hook \<Rightarrow> hook \<times> action list" where
  "effect url h =
     (let rid = next_id h;
          h1 = setState \<lparr>data = JNull, loading = True, error = None\<rparr> h;
          h2 = h1\<lparr>pending := pending h1 @ [(rid, url)], next_id := rid + 1\<rparr>
      in (h2, [SetState rid \<lparr>data = JNull, loading = True, error = None\<rparr>, Fetch rid url]))"

text \<open>
  Lines 16 to 37: one render of the component that calls \<open>useFetch(url)\<close>, and the commit
  that follows it. The render returns the cell as it is; the effect runs after it when
  \<open>url\<close> differs from the dependency of the last run, or on the first render.
\<close>

definition useFetch :: "string \<Rightarrow> hook \<Rightarrow> FetchState \<times> hook \<times> action list" where
  "useFetch url h =
     (if deps h = Some url then (state h, h, [])
      else (state h, effect url (h\<lparr>deps := Some url\<rparr>)))"

section \<open>Executions\<close>

text \<open>
  What happens to an instance: the owner renders with some url, the owner is torn down,
  or \<open>fetch\<close> of an outstanding retrieval settles and its chain runs. Between the
  response and its parsed body the chain touches no state, so the two are one event. An
  instance that has been torn down is not rendered again, and a retrieval settles once:
  a render after teardown and a settlement of a retrieval that is not outstanding leave
  the instance as it is.
\<close>

datatype event =
    Render string
  | Unmount
  | Settle nat "response settled"

fun step :: "hook \<Rightarrow> event \<Rightarrow> hook \<times> action list" where
  "step h (Render url) = (if alive h then snd (useFetch url h) else (h, []))"
| "step h Unmount = (h\<lparr>alive := False\<rparr>, [])"
| "step h (Settle rid fetched) =
     (case map_of (pending h) rid of
        None \<Rightarrow> (h, [])
      | Some url \<Rightarrow>
          (case fetch_chain fetched of (calls, final) \<Rightarrow>
             (fold setState calls (h\<lparr>pending := filter (\<lambda>p. fst p \<noteq> rid) (pending h)\<rparr>),
              map (SetState rid) calls
                @ (case final of Inl e \<Rightarrow> [Unhandled rid e] | Inr u \<Rightarrow> []))))"

fun run :: "hook \<Rightarrow> event list \<Rightarrow> hook \<times> action list" where
  "run h [] = (h, [])"
| "run h (e # es) =
     (case step h e of (h1, acts) \<Rightarrow>
        (case run h1 es of (h2, acts') \<Rightarrow> (h2, acts @ acts')))"

section \<open>Vocabulary of the specification\<close>

text \<open>
  The three forms of the request state that the specification names, and the fourth that
  the code can also reach: not loading, no data and no error.
\<close>

definition form_a :: "FetchState \<Rightarrow> bool" where
  "form_a s \<longleftrightarrow> loading s \<and> data s = JNull \<and> error s = None"

definition form_b :: "FetchState \<Rightarrow> bool" where
  "form_b s \<longleftrightarrow> \<not> loading s \<and> data s \<noteq> JNull \<and> error s = None"

definition form_c :: "FetchState \<Rightarrow> bool" where
  "form_c s \<longleftrightarrow> \<not> loading s \<and> data s = JNull \<and> error s \<noteq> None"

definition form_null :: "FetchState \<Rightarrow> bool" where
  "form_null s \<longleftrightarrow> \<not> loading s \<and> data s = JNull \<and> error s = None"

definition exactly_one :: "bool list \<Rightarrow> bool" where
  "exactly_one bs \<longleftrightarrow> length (filter (\<lambda>b. b) bs) = 1"

text \<open>
  The three kinds of failure: \<open>fetch\<close> itself rejects; the response arrives with
  \<open>ok\<close> false; the response is ok and \<open>res.json()\<close> rejects.
\<close>

definition transport_failure :: "response settled \<Rightarrow> bool" where
  "transport_failure fetched = (case fetched of Inl e \<Rightarrow> True | Inr res \<Rightarrow> False)"

definition status_failure :: "response settled \<Rightarrow> bool" where
  "status_failure fetched = (case fetched of Inl e \<Rightarrow> False | Inr res \<Rightarrow> \<not> ok res)"

definition parse_failure :: "response settled \<Rightarrow> bool" where
  "parse_failure fetched =
     (case fetched of
        Inl e \<Rightarrow> False
      | Inr res \<Rightarrow> ok res \<and> (case json res of Inl e \<Rightarrow> True | Inr d \<Rightarrow> False))"

text \<open>
  A retrieval is stale in an instance when the owner has been torn down, or when a later
  effect run has superseded the one that issued it.
\<close>

definition stale :: "hook \<Rightarrow> nat \<Rightarrow> bool" where
  "stale h rid \<longleftrightarrow> \<not> alive h \<or> Suc rid < next_id h"

text \<open>The urls of the \<open>fetch\<close> calls among some actions, in order.\<close>

fun fetches :: "action list \<Rightarrow> string list" where
  "fetches [] = []"
| "fetches (Fetch rid url # acts) = url # fetches acts"
| "fetches (SetState rid s # acts) = fetches acts"
| "fetches (Unhandled rid e # acts) = fetches acts"

text \<open>The urls the owner renders with, in order, up to its teardown.\<close>

fun rendered :: "event list \<Rightarrow> string list" where
  "rendered [] = []"
| "rendered (Render url # es) = url # rendered es"
| "rendered (Unmount # es) = []"
| "rendered (Settle rid fetched # es) = rendered es"

text \<open>The payload of Scenario A.\<close>

definition todo1 :: json where
  "todo1 = JObj [(''userId'', JNum 1), (''id'', JNum 1),
                 (''title'', JStr ''delectus aut autem''), (''completed'', JBool False)]"

section \<open>The promise chain, case by case\<close>

lemma fetch_chain_rejected:
  "fetch_chain (Inl e) = ([\<lparr>data = JNull, loading = False, error = Some e\<rparr>], Inr ())"
  by (simp add: fetch_chain_def call_setState_def)

lemma fetch_chain_status:
  "\<not> ok res \<Longrightarrow> fetch_chain (Inr res) =
     ([\<lparr>data = JNull, loading = False,
        error = Some (Error (''Request failed with status '' @ show_nat (status res)))\<rparr>], Inr ())"
  by (simp add: fetch_chain_def call_setState_def throw_def)

lemma fetch_chain_parse:
  "ok res \<Longrightarrow> json res = Inl e \<Longrightarrow> fetch_chain (Inr res) =
     ([\<lparr>data = JNull, loading = False, error = Some e\<rparr>], Inr ())"
  by (simp add: fetch_chain_def call_setState_def)

lemma fetch_chain_parsed:
  "ok res \<Longrightarrow> json res = Inr d \<Longrightarrow> fetch_chain (Inr res) =
     ([\<lparr>data = d, loading = False, error = None\<rparr>], Inr ())"
  by (simp add: fetch_chain_def call_setState_def)

lemma fetch_chain_result:
  obtains s where "fetch_chain fetched = ([s], Inr ())" and "\<not> loading s"
    and "error s = None \<or> data s = JNull"
proof (cases fetched)
  case (Inl e)
  then show ?thesis using that fetch_chain_rejected [of e] by simp
next
  case (Inr res)
  show ?thesis
  proof (cases "ok res")
    case False
    then show ?thesis using that Inr fetch_chain_status [of res] by simp
  next
    case True
    show ?thesis
    proof (cases "json res")
      case (Inl e)
      then show ?thesis using that True Inr fetch_chain_parse [of res e] by simp
    next
      case (Inr d)
      then show ?thesis using that True \<open>fetched = Inr res\<close> fetch_chain_parsed [of res d] by simp
    qed
  qed
qed

section \<open>Single steps\<close>

lemma step_Settle_pending:
  "map_of (pending h) rid = Some url \<Longrightarrow> fetch_chain fetched = ([s], Inr ()) \<Longrightarrow>
   step h (Settle rid fetched) =
     (setState s (h\<lparr>pending := filter (\<lambda>p. fst p \<noteq> rid) (pending h)\<rparr>), [SetState rid s])"
  by simp

lemma step_Render_trigger:
  "alive h \<Longrightarrow> deps h \<noteq> Some url \<Longrightarrow>
   step h (Render url) =
     (h\<lparr>state := \<lparr>data = JNull, loading = True, error = None\<rparr>, deps := Some url,
        pending := pending h @ [(next_id h, url)], next_id := next_id h + 1\<rparr>,
      [SetState (next_id h) \<lparr>data = JNull, loading = True, error = None\<rparr>,
       Fetch (next_id h) url])"
  by (simp add: useFetch_def effect_def setState_def Let_def)

lemma step_Render_same:
  "deps h = Some url \<Longrightarrow> step h (Render url) = (h, [])"
  by (simp add: useFetch_def)

lemma step_Render_dead:
  "\<not> alive h \<Longrightarrow> step h (Render url) = (h, [])"
  by simp

lemma run_Cons_fst: "fst (run h (e # es)) = fst (run (fst (step h e)) es)"
  by (simp split: prod.splits)

lemma run_Cons_snd: "snd (run h (e # es)) = snd (step h e) @ snd (run (fst (step h e)) es)"
  by (simp split: prod.splits)

text \<open>The definitions that evaluate a concrete execution.\<close>

lemmas hook_eval =
  init_hook_def initial_state_def useFetch_def effect_def setState_def fetch_chain_def
  throw_def call_setState_def Error_def Let_def

section \<open>First render, success and failure values\<close>

text \<open>
  Claim C8. Whatever the url, the state that \<open>useFetch\<close> returns on the first render
  of an instance, before any retrieval has settled, is
  \<open>{data: null, loading: true, error: null}\<close>. It is form (a): the hook has no idle
  state apart from loading.
\<close>

theorem first_render_is_loading:
  "fst (useFetch url init_hook) = \<lparr>data = JNull, loading = True, error = None\<rparr>
   \<and> form_a (fst (useFetch url init_hook))
   \<and> \<not> form_b (fst (useFetch url init_hook))
   \<and> \<not> form_c (fst (useFetch url init_hook))"
  by (simp add: useFetch_def init_hook_def initial_state_def form_a_def form_b_def form_c_def)

text \<open>
  Claim C9. There is a successful retrieval, one whose response is ok and whose body
  parses to \<open>null\<close>, after which the published state is
  \<open>{data: null, loading: false, error: null}\<close>: no data, not loading, no error. It
  holds for every url and every status that comes with \<open>ok\<close>.
\<close>

theorem null_body_publishes_no_data_no_error:
  "run init_hook [Render url, Settle 0 (Inr \<lparr>ok = True, status = n, json = Inr JNull\<rparr>)] =
     (\<lparr>state = \<lparr>data = JNull, loading = False, error = None\<rparr>, deps = Some url,
       alive = True, pending = [], next_id = 1\<rparr>,
      [SetState 0 \<lparr>data = JNull, loading = True, error = None\<rparr>, Fetch 0 url,
       SetState 0 \<lparr>data = JNull, loading = False, error = None\<rparr>])"
  by (simp add: hook_eval)

text \<open>
  Claim C4. When an outstanding retrieval settles with an ok response whose body parses to
  \<open>d\<close>, the hook calls \<open>setState\<close> once, with \<open>data = d\<close>, \<open>loading = false\<close>
  and no error, and a mounted instance then holds that state; it is form (b) whenever the
  payload is not \<open>null\<close>. In Scenario A the final state carries the todo object.
\<close>

theorem success_publishes_parsed_payload:
  assumes "map_of (pending h) rid = Some url" and "ok res" and "json res = Inr d"
  shows "snd (step h (Settle rid (Inr res))) =
           [SetState rid \<lparr>data = d, loading = False, error = None\<rparr>]
         \<and> (alive h \<longrightarrow> state (fst (step h (Settle rid (Inr res)))) =
               \<lparr>data = d, loading = False, error = None\<rparr>)
         \<and> (d \<noteq> JNull \<longrightarrow> form_b \<lparr>data = d, loading = False, error = None\<rparr>)
         \<and> state (fst (run init_hook [Render ''/todos/1'',
               Settle 0 (Inr \<lparr>ok = True, status = n, json = Inr todo1\<rparr>)])) =
             \<lparr>data = todo1, loading = False, error = None\<rparr>"
proof -
  have chain: "fetch_chain (Inr res) = ([\<lparr>data = d, loading = False, error = None\<rparr>], Inr ())"
    using assms(2,3) by (rule fetch_chain_parsed)
  have st: "step h (Settle rid (Inr res)) =
      (setState \<lparr>data = d, loading = False, error = None\<rparr>
         (h\<lparr>pending := filter (\<lambda>p. fst p \<noteq> rid) (pending h)\<rparr>),
       [SetState rid \<lparr>data = d, loading = False, error = None\<rparr>])"
    using assms(1) chain by (rule step_Settle_pending)
  have scenario: "state (fst (run init_hook [Render ''/todos/1'',
               Settle 0 (Inr \<lparr>ok = True, status = n, json = Inr todo1\<rparr>)])) =
             \<lparr>data = todo1, loading = False, error = None\<rparr>"
    by (simp add: hook_eval)
  show ?thesis
    unfolding st using scenario by (simp add: setState_def form_b_def)
qed

theorem success_publishes_parsed_payload_witness:
  "map_of (pending (fst (run init_hook [Render ''/todos/1'']))) 0 = Some ''/todos/1''
   \<and> ok \<lparr>ok = True, status = 200, json = Inr todo1\<rparr>
   \<and> snd (step (fst (run init_hook [Render ''/todos/1'']))
        (Settle 0 (Inr \<lparr>ok = True, status = 200, json = Inr todo1\<rparr>))) =
       [SetState 0 \<lparr>data = todo1, loading = False, error = None\<rparr>]
   \<and> state (fst (step (fst (run init_hook [Render ''/todos/1'']))
        (Settle 0 (Inr \<lparr>ok = True, status = 200, json = Inr todo1\<rparr>)))) =
       \<lparr>data = todo1, loading = False, error = None\<rparr>
   \<and> form_b \<lparr>data = todo1, loading = False, error = None\<rparr>"
  using success_publishes_parsed_payload
    [of "fst (run init_hook [Render ''/todos/1''])" 0 "''/todos/1''"
        "\<lparr>ok = True, status = 200, json = Inr todo1\<rparr>" todo1 200]
  by (simp add: hook_eval todo1_def)

text \<open>
  Claim C10. For a response whose \<open>ok\<close> is false and whose status is \<open>N\<close>, the error
  published is the thrown \<open>Error\<close> whose message is exactly
  \<open>Request failed with status N\<close>. When \<open>fetch\<close> rejects, or \<open>res.json()\<close>
  rejects, the caught value is stored in \<open>error\<close> as it is.
\<close>

theorem failure_stores_error_value:
  assumes "map_of (pending h) rid = Some url"
  shows "(\<not> ok res \<longrightarrow>
            snd (step h (Settle rid (Inr res))) =
              [SetState rid \<lparr>data = JNull, loading = False,
                 error = Some (Error (''Request failed with status '' @ show_nat (status res)))\<rparr>])
         \<and> message (Error (''Request failed with status '' @ show_nat (status res))) =
             ''Request failed with status '' @ show_nat (status res)
         \<and> snd (step h (Settle rid (Inl e))) =
             [SetState rid \<lparr>data = JNull, loading = False, error = Some e\<rparr>]
         \<and> (ok res \<and> json res = Inl e \<longrightarrow>
              snd (step h (Settle rid (Inr res))) =
                [SetState rid \<lparr>data = JNull, loading = False, error = Some e\<rparr>])"
  using assms
  by (simp add: step_Settle_pending fetch_chain_status fetch_chain_rejected fetch_chain_parse
        Error_def del: step.simps)

theorem failure_stores_error_value_witness:
  "map_of (pending (fst (run init_hook [Render ''/todos/999999'']))) 0 = Some ''/todos/999999''
   \<and> snd (step (fst (run init_hook [Render ''/todos/999999'']))
        (Settle 0 (Inr \<lparr>ok = False, status = 404, json = Inr JNull\<rparr>))) =
       [SetState 0 \<lparr>data = JNull, loading = False,
          error = Some \<lparr>err_name = ''Error'', message = ''Request failed with status 404''\<rparr>\<rparr>]
   \<and> snd (step (fst (run init_hook [Render ''/todos/999999'']))
        (Settle 0 (Inl \<lparr>err_name = ''TypeError'', message = ''Failed to fetch''\<rparr>))) =
       [SetState 0 \<lparr>data = JNull, loading = False,
          error = Some \<lparr>err_name = ''TypeError'', message = ''Failed to fetch''\<rparr>\<rparr>]
   \<and> snd (step (fst (run init_hook [Render ''/todos/999999'']))
        (Settle 0 (Inr \<lparr>ok = True, status = 200,
           json = Inl \<lparr>err_name = ''SyntaxError'', message = ''Unexpected end of JSON input''\<rparr>\<rparr>))) =
       [SetState 0 \<lparr>data = JNull, loading = False,
          error = Some \<lparr>err_name = ''SyntaxError'', message = ''Unexpected end of JSON input''\<rparr>\<rparr>]"
  using failure_stores_error_value
    [of "fst (run init_hook [Render ''/todos/999999''])" 0 "''/todos/999999''"
        "\<lparr>ok = False, status = 404, json = Inr JNull\<rparr>"
        "\<lparr>err_name = ''TypeError'', message = ''Failed to fetch''\<rparr>"]
    failure_stores_error_value
    [of "fst (run init_hook [Render ''/todos/999999''])" 0 "''/todos/999999''"
        "\<lparr>ok = True, status = 200,
           json = Inl \<lparr>err_name = ''SyntaxError'', message = ''Unexpected end of JSON input''\<rparr>\<rparr>"
        "\<lparr>err_name = ''SyntaxError'', message = ''Unexpected end of JSON input''\<rparr>"]
  by (simp add: hook_eval show_nat.simps digit_def)

section \<open>What one step publishes\<close>

lemma step_actions:
  "snd (step h e) = [] \<or>
   (\<exists>url. e = Render url \<and> alive h \<and> deps h \<noteq> Some url \<and>
      snd (step h e) = [SetState (next_id h) \<lparr>data = JNull, loading = True, error = None\<rparr>,
                        Fetch (next_id h) url]) \<or>
   (\<exists>rid fetched url s. e = Settle rid fetched \<and> map_of (pending h) rid = Some url \<and>
      fetch_chain fetched = ([s], Inr ()) \<and> \<not> loading s \<and>
      (error s = None \<or> data s = JNull) \<and> snd (step h e) = [SetState rid s])"
proof (cases e)
  case (Render url)
  show ?thesis
  proof (cases "alive h \<and> deps h \<noteq> Some url")
    case True
    then show ?thesis using Render step_Render_trigger [of h url] by simp
  next
    case False
    then show ?thesis using Render step_Render_same [of h url] step_Render_dead [of h url]
      by auto
  qed
next
  case Unmount
  then show ?thesis by simp
next
  case (Settle rid fetched)
  show ?thesis
  proof (cases "map_of (pending h) rid")
    case None
    then show ?thesis using Settle by simp
  next
    case (Some url)
    obtain s where s: "fetch_chain fetched = ([s], Inr ())" "\<not> loading s"
      "error s = None \<or> data s = JNull"
      by (rule fetch_chain_result)
    have "snd (step h (Settle rid fetched)) = [SetState rid s]"
      using step_Settle_pending [OF Some s(1)] by simp
    then show ?thesis using Settle Some s by blast
  qed
qed

lemma step_state:
  "state (fst (step h e)) = state h \<or>
   (\<exists>rid. SetState rid (state (fst (step h e))) \<in> set (snd (step h e)))"
proof (cases e)
  case (Render url)
  show ?thesis
  proof (cases "alive h \<and> deps h \<noteq> Some url")
    case True
    then show ?thesis using Render step_Render_trigger [of h url] by simp
  next
    case False
    then show ?thesis using Render step_Render_same [of h url] step_Render_dead [of h url]
      by auto
  qed
next
  case Unmount
  then show ?thesis by simp
next
  case (Settle rid fetched)
  show ?thesis
  proof (cases "map_of (pending h) rid")
    case None
    then show ?thesis using Settle by simp
  next
    case (Some url)
    obtain s where s: "fetch_chain fetched = ([s], Inr ())"
      using fetch_chain_result [of fetched] by blast
    show ?thesis
      using Settle step_Settle_pending [OF Some s] by (simp add: setState_def)
  qed
qed

lemma exactly_one_forms_iff:
  "exactly_one [form_a s, form_b s, form_c s, form_null s] \<longleftrightarrow>
     (loading s \<longrightarrow> data s = JNull \<and> error s = None) \<and> (error s = None \<or> data s = JNull)"
  by (auto simp: exactly_one_def form_a_def form_b_def form_c_def form_null_def)

lemma step_published_forms:
  assumes "SetState rid s \<in> set (snd (step h e))"
  shows "exactly_one [form_a s, form_b s, form_c s, form_null s]"
  using step_actions [of h e] assms by (auto simp: exactly_one_forms_iff)

lemma step_forms:
  assumes "exactly_one [form_a (state h), form_b (state h), form_c (state h), form_null (state h)]"
  shows "exactly_one [form_a (state (fst (step h e))), form_b (state (fst (step h e))),
           form_c (state (fst (step h e))), form_null (state (fst (step h e)))]"
  using step_state [of h e] assms step_published_forms [of _ "state (fst (step h e))" h e]
  by auto

lemma run_forms:
  assumes "exactly_one [form_a (state h), form_b (state h), form_c (state h), form_null (state h)]"
  shows "exactly_one [form_a (state (fst (run h es))), form_b (state (fst (run h es))),
           form_c (state (fst (run h es))), form_null (state (fst (run h es)))]"
  using assms
proof (induction es arbitrary: h)
  case Nil
  then show ?case by simp
next
  case (Cons e es)
  show ?case
    unfolding run_Cons_fst by (rule Cons.IH) (rule step_forms [OF Cons.prems])
qed

lemma useFetch_returns_cell: "fst (useFetch url h) = state h"
  by (simp add: useFetch_def)

text \<open>
  Claim C2, amended. At every observation of the state that \<open>useFetch\<close> returns, after
  any sequence of renders, teardown and settlements, exactly one of four forms holds: (a),
  (b), (c), or not loading with neither data nor error, which a body that parses to
  \<open>null\<close> produces.
\<close>

theorem observed_state_one_of_four_forms:
  "exactly_one
     [form_a (fst (useFetch url (fst (run init_hook es)))),
      form_b (fst (useFetch url (fst (run init_hook es)))),
      form_c (fst (useFetch url (fst (run init_hook es)))),
      form_null (fst (useFetch url (fst (run init_hook es))))]"
  unfolding useFetch_returns_cell
  by (rule run_forms)
     (simp add: init_hook_def initial_state_def exactly_one_def form_a_def form_b_def
        form_c_def form_null_def)

text \<open>
  Claim C2 as stated, that one of the forms (a), (b), (c) holds at every observation,
  fails after an ok response whose body parses to \<open>null\<close>: none of the three holds.
\<close>

theorem null_payload_outside_three_forms:
  "\<not> exactly_one
     [form_a (fst (useFetch ''/todos/1'' (fst (run init_hook [Render ''/todos/1'',
         Settle 0 (Inr \<lparr>ok = True, status = 200, json = Inr JNull\<rparr>)])))),
      form_b (fst (useFetch ''/todos/1'' (fst (run init_hook [Render ''/todos/1'',
         Settle 0 (Inr \<lparr>ok = True, status = 200, json = Inr JNull\<rparr>)])))),
      form_c (fst (useFetch ''/todos/1'' (fst (run init_hook [Render ''/todos/1'',
         Settle 0 (Inr \<lparr>ok = True, status = 200, json = Inr JNull\<rparr>)]))))]"
  by (simp add: hook_eval exactly_one_def form_a_def form_b_def form_c_def)

section \<open>No rejection escapes\<close>

lemma step_no_unhandled: "Unhandled rid e \<notin> set (snd (step h ev))"
  using step_actions [of h ev] by auto

lemma run_no_unhandled: "Unhandled rid e \<notin> set (snd (run h es))"
proof (induction es arbitrary: h)
  case Nil
  then show ?case by simp
next
  case (Cons ev es)
  then show ?case unfolding run_Cons_snd using step_no_unhandled by simp
qed

text \<open>
  Claim C3. When an outstanding retrieval ends in one of the three kinds of failure (a
  status that is not ok, a transport failure, a parse failure), the hook calls
  \<open>setState\<close> once with form (c): no data, not loading, and the error present. The
  error is the one of that failure: for a status \<open>N\<close> that is not ok, the \<open>Error\<close>
  whose message reads \<open>Request failed with status N\<close>; for a transport failure, the
  reason \<open>fetch\<close> rejected with; for a parse failure, the reason \<open>res.json()\<close>
  rejected with, each carrying the message the runtime gave it. The chain ends
  fulfilled, so in no execution does a rejection go uncaught.
\<close>

theorem failure_publishes_error_form:
  assumes "map_of (pending h) rid = Some url"
    and "transport_failure fetched \<or> status_failure fetched \<or> parse_failure fetched"
  shows "(\<exists>err. snd (step h (Settle rid fetched)) =
              [SetState rid \<lparr>data = JNull, loading = False, error = Some err\<rparr>]
            \<and> form_c \<lparr>data = JNull, loading = False, error = Some err\<rparr>
            \<and> (alive h \<longrightarrow> state (fst (step h (Settle rid fetched))) =
                  \<lparr>data = JNull, loading = False, error = Some err\<rparr>)
            \<and> (case fetched of
                  Inl e \<Rightarrow> err = e
                | Inr res \<Rightarrow>
                    if \<not> ok res
                    then err = \<lparr>err_name = ''Error'',
                                 message = ''Request failed with status '' @ show_nat (status res)\<rparr>
                    else json res = Inl err))
         \<and> snd (fetch_chain fetched) = Inr ()
         \<and> (\<forall>es r e. Unhandled r e \<notin> set (snd (run init_hook es)))"
proof -
  obtain err where chain:
    "fetch_chain fetched = ([\<lparr>data = JNull, loading = False, error = Some err\<rparr>], Inr ())"
    and caught:
    "case fetched of
       Inl e \<Rightarrow> err = e
     | Inr res \<Rightarrow>
         if \<not> ok res
         then err = \<lparr>err_name = ''Error'',
                      message = ''Request failed with status '' @ show_nat (status res)\<rparr>
         else json res = Inl err"
  proof (cases fetched)
    case (Inl e)
    then show ?thesis using that [of e] fetch_chain_rejected [of e] by simp
  next
    case (Inr res)
    show ?thesis
    proof (cases "ok res")
      case False
      then show ?thesis
        using that [of "Error (''Request failed with status '' @ show_nat (status res))"]
          Inr fetch_chain_status [of res]
        by (simp add: Error_def)
    next
      case True
      then obtain e where "json res = Inl e"
        using assms(2) Inr
        by (auto simp: transport_failure_def status_failure_def parse_failure_def
            split: sum.splits)
      then show ?thesis using that [of e] True Inr fetch_chain_parse [of res e] by simp
    qed
  qed
  have published: "\<exists>err. snd (step h (Settle rid fetched)) =
              [SetState rid \<lparr>data = JNull, loading = False, error = Some err\<rparr>]
            \<and> form_c \<lparr>data = JNull, loading = False, error = Some err\<rparr>
            \<and> (alive h \<longrightarrow> state (fst (step h (Settle rid fetched))) =
                  \<lparr>data = JNull, loading = False, error = Some err\<rparr>)
            \<and> (case fetched of
                  Inl e \<Rightarrow> err = e
                | Inr res \<Rightarrow>
                    if \<not> ok res
                    then err = \<lparr>err_name = ''Error'',
                                 message = ''Request failed with status '' @ show_nat (status res)\<rparr>
                    else json res = Inl err)"
    unfolding step_Settle_pending [OF assms(1) chain]
    using caught by (intro exI [of _ err]) (simp add: setState_def form_c_def)
  have fulfilled: "snd (fetch_chain fetched) = Inr ()"
    by (simp add: chain)
  show ?thesis
    using published fulfilled run_no_unhandled by blast
qed

theorem failure_publishes_error_form_witness:
  "map_of (pending (fst (run init_hook [Render ''/todos/999999'']))) 0 = Some ''/todos/999999''
   \<and> status_failure (Inr \<lparr>ok = False, status = 404, json = Inr JNull\<rparr>)
   \<and> snd (step (fst (run init_hook [Render ''/todos/999999'']))
        (Settle 0 (Inr \<lparr>ok = False, status = 404, json = Inr JNull\<rparr>))) =
       [SetState 0 \<lparr>data = JNull, loading = False,
          error = Some \<lparr>err_name = ''Error'',
                         message = ''Request failed with status 404''\<rparr>\<rparr>]
   \<and> state (fst (step (fst (run init_hook [Render ''/todos/999999'']))
        (Settle 0 (Inr \<lparr>ok = False, status = 404, json = Inr JNull\<rparr>)))) =
       \<lparr>data = JNull, loading = False,
          error = Some \<lparr>err_name = ''Error'',
                         message = ''Request failed with status 404''\<rparr>\<rparr>
   \<and> snd (fetch_chain (Inr \<lparr>ok = False, status = 404, json = Inr JNull\<rparr>)) = Inr ()
   \<and> transport_failure (Inl \<lparr>err_name = ''TypeError'', message = ''Failed to fetch''\<rparr>)
   \<and> snd (step (fst (run init_hook [Render ''/todos/999999'']))
        (Settle 0 (Inl \<lparr>err_name = ''TypeError'', message = ''Failed to fetch''\<rparr>))) =
       [SetState 0 \<lparr>data = JNull, loading = False,
          error = Some \<lparr>err_name = ''TypeError'', message = ''Failed to fetch''\<rparr>\<rparr>]
   \<and> parse_failure (Inr \<lparr>ok = True, status = 200,
        json = Inl \<lparr>err_name = ''SyntaxError'', message = ''Unexpected end of JSON input''\<rparr>\<rparr>)
   \<and> snd (step (fst (run init_hook [Render ''/todos/999999'']))
        (Settle 0 (Inr \<lparr>ok = True, status = 200,
           json = Inl \<lparr>err_name = ''SyntaxError'',
                        message = ''Unexpected end of JSON input''\<rparr>\<rparr>))) =
       [SetState 0 \<lparr>data = JNull, loading = False,
          error = Some \<lparr>err_name = ''SyntaxError'',
                         message = ''Unexpected end of JSON input''\<rparr>\<rparr>]"
  using failure_publishes_error_form
    [of "fst (run init_hook [Render ''/todos/999999''])" 0 "''/todos/999999''"
        "Inr \<lparr>ok = False, status = 404, json = Inr JNull\<rparr>"]
    failure_publishes_error_form
    [of "fst (run init_hook [Render ''/todos/999999''])" 0 "''/todos/999999''"
        "Inl \<lparr>err_name = ''TypeError'', message = ''Failed to fetch''\<rparr>"]
    failure_publishes_error_form
    [of "fst (run init_hook [Render ''/todos/999999''])" 0 "''/todos/999999''"
        "Inr \<lparr>ok = True, status = 200,
           json = Inl \<lparr>err_name = ''SyntaxError'',
                        message = ''Unexpected end of JSON input''\<rparr>\<rparr>"]
  by (simp add: hook_eval show_nat.simps digit_def transport_failure_def status_failure_def
        parse_failure_def)

section \<open>The reset on a change of url\<close>

text \<open>
  Claim C6. When a mounted instance renders with a url other than the one of its last
  effect run, the effect first calls \<open>setState\<close> with form (a) and then issues the
  retrieval: after the commit the state is \<open>{data: null, loading: true, error: null}\<close>
  and the new retrieval is still outstanding.
\<close>

theorem url_change_resets_to_loading:
  assumes "alive h" and "deps h \<noteq> Some url"
  shows "snd (step h (Render url)) =
           [SetState (next_id h) \<lparr>data = JNull, loading = True, error = None\<rparr>,
            Fetch (next_id h) url]
         \<and> state (fst (step h (Render url))) = \<lparr>data = JNull, loading = True, error = None\<rparr>
         \<and> form_a (state (fst (step h (Render url))))
         \<and> (next_id h, url) \<in> set (pending (fst (step h (Render url))))"
  unfolding step_Render_trigger [OF assms] by (simp add: form_a_def)

theorem url_change_resets_to_loading_witness:
  "alive (fst (run init_hook [Render ''/todos/1'',
       Settle 0 (Inr \<lparr>ok = True, status = 200, json = Inr todo1\<rparr>)]))
   \<and> deps (fst (run init_hook [Render ''/todos/1'',
       Settle 0 (Inr \<lparr>ok = True, status = 200, json = Inr todo1\<rparr>)])) = Some ''/todos/1''
   \<and> state (fst (run init_hook [Render ''/todos/1'',
       Settle 0 (Inr \<lparr>ok = True, status = 200, json = Inr todo1\<rparr>)])) =
       \<lparr>data = todo1, loading = False, error = None\<rparr>
   \<and> snd (step (fst (run init_hook [Render ''/todos/1'',
       Settle 0 (Inr \<lparr>ok = True, status = 200, json = Inr todo1\<rparr>)])) (Render ''/todos/2'')) =
       [SetState 1 \<lparr>data = JNull, loading = True, error = None\<rparr>, Fetch 1 ''/todos/2'']
   \<and> state (fst (step (fst (run init_hook [Render ''/todos/1'',
       Settle 0 (Inr \<lparr>ok = True, status = 200, json = Inr todo1\<rparr>)])) (Render ''/todos/2''))) =
       \<lparr>data = JNull, loading = True, error = None\<rparr>
   \<and> pending (fst (step (fst (run init_hook [Render ''/todos/1'',
       Settle 0 (Inr \<lparr>ok = True, status = 200, json = Inr todo1\<rparr>)])) (Render ''/todos/2''))) =
       [(1, ''/todos/2'')]"
  using url_change_resets_to_loading
    [of "fst (run init_hook [Render ''/todos/1'',
       Settle 0 (Inr \<lparr>ok = True, status = 200, json = Inr todo1\<rparr>)])" "''/todos/2''"]
  by (simp add: hook_eval)

section \<open>How a step moves the instance\<close>

lemma step_Settle_keeps:
  "alive (fst (step h (Settle rid fetched))) = alive h
   \<and> deps (fst (step h (Settle rid fetched))) = deps h
   \<and> next_id (fst (step h (Settle rid fetched))) = next_id h
   \<and> set (pending (fst (step h (Settle rid fetched)))) \<subseteq> set (pending h)"
proof (cases "map_of (pending h) rid")
  case None
  then show ?thesis by simp
next
  case (Some url)
  obtain s where s: "fetch_chain fetched = ([s], Inr ())"
    using fetch_chain_result [of fetched] by blast
  show ?thesis
    unfolding step_Settle_pending [OF Some s] by (auto simp: setState_def)
qed

lemma step_dead: "\<not> alive h \<Longrightarrow> \<not> alive (fst (step h e))"
  by (cases e) (simp_all add: step_Settle_keeps del: step.simps(3))

lemma step_Render_alive:
  "alive h \<Longrightarrow> alive (fst (step h (Render url))) \<and> deps (fst (step h (Render url))) = Some url"
  by (cases "deps h = Some url") (simp_all add: step_Render_same step_Render_trigger del: step.simps)

section \<open>Counting the retrievals\<close>

lemma fetches_append: "fetches (xs @ ys) = fetches xs @ fetches ys"
  by (induction xs rule: fetches.induct) simp_all

lemma step_fetches:
  "fetches (snd (step h e)) =
     (case e of Render url \<Rightarrow> if alive h \<and> deps h \<noteq> Some url then [url] else []
      | Unmount \<Rightarrow> [] | Settle rid fetched \<Rightarrow> [])"
proof (cases e)
  case (Render url)
  show ?thesis
  proof (cases "alive h \<and> deps h \<noteq> Some url")
    case True
    then show ?thesis unfolding Render by (simp add: step_Render_trigger del: step.simps)
  next
    case False
    then show ?thesis
      unfolding Render using step_Render_same [of h url] step_Render_dead [of h url]
      by (auto simp del: step.simps)
  qed
next
  case Unmount
  then show ?thesis by simp
next
  case (Settle rid fetched)
  show ?thesis
    using step_actions [of h "Settle rid fetched"] unfolding Settle
    by (auto simp del: step.simps)
qed

lemma run_fetches:
  "fetches (snd (run h es)) =
     (if alive h
      then (case deps h of None \<Rightarrow> remdups_adj (rendered es)
            | Some d \<Rightarrow> tl (remdups_adj (d # rendered es)))
      else [])"
proof (induction es arbitrary: h)
  case Nil
  then show ?case by (simp split: option.splits)
next
  case (Cons e es)
  show ?case
  proof (cases e)
    case (Render url)
    show ?thesis
    proof (cases "alive h")
      case True
      note after = step_Render_alive [OF True, of url]
      show ?thesis
        unfolding run_Cons_snd fetches_append Cons.IH step_fetches
        using True after Render by (simp split: option.splits)
    next
      case False
      show ?thesis
        unfolding run_Cons_snd fetches_append Cons.IH step_fetches
        using False step_dead [OF False, of e] Render by simp
    qed
  next
    case Unmount
    show ?thesis
      unfolding run_Cons_snd fetches_append Cons.IH step_fetches
      using Unmount by (simp split: option.splits)
  next
    case (Settle rid fetched)
    show ?thesis
      unfolding run_Cons_snd fetches_append Cons.IH step_fetches
      using Settle step_Settle_keeps [of h rid fetched]
      by (simp del: step.simps split: option.splits)
  qed
qed

text \<open>
  Claim C7. Over any execution the urls fetched are the urls rendered with, consecutive
  repetitions removed: each change of url issues exactly one \<open>fetch\<close>, a render with the
  url unchanged issues none, and a changed url is fetched whatever was fetched before or is
  still outstanding.
\<close>

theorem one_fetch_per_url_change:
  "fetches (snd (run init_hook es)) = remdups_adj (rendered es)
   \<and> (alive h \<and> deps h \<noteq> Some url \<longrightarrow> fetches (snd (step h (Render url))) = [url])
   \<and> (deps h = Some url \<longrightarrow> fetches (snd (step h (Render url))) = [])"
  by (simp add: run_fetches step_fetches init_hook_def del: step.simps)

theorem one_fetch_per_url_change_witness:
  "fetches (snd (run init_hook
      [Render ''/todos/1'', Render ''/todos/1'', Render ''/todos/2'', Render ''/todos/1''])) =
     [''/todos/1'', ''/todos/2'', ''/todos/1'']
   \<and> alive (fst (run init_hook [Render ''/todos/1'', Render ''/todos/2'']))
   \<and> deps (fst (run init_hook [Render ''/todos/1'', Render ''/todos/2''])) = Some ''/todos/2''
   \<and> pending (fst (run init_hook [Render ''/todos/1'', Render ''/todos/2''])) =
       [(0, ''/todos/1''), (1, ''/todos/2'')]
   \<and> fetches (snd (step (fst (run init_hook [Render ''/todos/1'', Render ''/todos/2'']))
        (Render ''/todos/1''))) = [''/todos/1'']
   \<and> fetches (snd (step (fst (run init_hook [Render ''/todos/1'', Render ''/todos/2'']))
        (Render ''/todos/2''))) = []"
  using one_fetch_per_url_change
    [of "[Render ''/todos/1'', Render ''/todos/1'', Render ''/todos/2'', Render ''/todos/1'']"
        "fst (run init_hook [Render ''/todos/1'', Render ''/todos/2''])" "''/todos/1''"]
    one_fetch_per_url_change
    [of "[]" "fst (run init_hook [Render ''/todos/1'', Render ''/todos/2''])" "''/todos/2''"]
  by (simp add: hook_eval)

section \<open>Loading comes first\<close>

lemma step_pending:
  assumes "rid \<in> fst ` set (pending (fst (step h e)))"
  shows "rid \<in> fst ` set (pending h) \<or>
         (\<exists>url. snd (step h e) =
            [SetState rid \<lparr>data = JNull, loading = True, error = None\<rparr>, Fetch rid url])"
proof (cases e)
  case (Render url)
  show ?thesis
  proof (cases "alive h \<and> deps h \<noteq> Some url")
    case True
    then show ?thesis using assms Render step_Render_trigger [of h url] by auto
  next
    case False
    then show ?thesis
      using assms Render step_Render_same [of h url] step_Render_dead [of h url] by auto
  qed
next
  case Unmount
  then show ?thesis using assms by simp
next
  case (Settle r fetched)
  then show ?thesis using assms step_Settle_keeps [of h r fetched] by auto
qed

lemma step_result_pending:
  assumes "SetState rid s \<in> set (snd (step h e))" and "\<not> loading s"
  shows "rid \<in> fst ` set (pending h)"
  using step_actions [of h e] assms by (auto dest: map_of_SomeD intro: rev_image_eqI)

lemma run_loading_first:
  assumes "snd (run h es) = pre @ SetState rid s # post" and "\<not> loading s"
  shows "rid \<in> fst ` set (pending h) \<or>
         (\<exists>p1 p2 url. pre = p1 @ SetState rid \<lparr>data = JNull, loading = True, error = None\<rparr>
                              # Fetch rid url # p2)"
  using assms
proof (induction es arbitrary: h pre)
  case Nil
  then show ?case by simp
next
  case (Cons e es)
  let ?acts = "snd (step h e)"
  let ?h1 = "fst (step h e)"
  from Cons.prems(1) have split: "?acts @ snd (run ?h1 es) = pre @ SetState rid s # post"
    by (simp only: run_Cons_snd)
  then consider
    (here) us where "?acts = pre @ SetState rid s # us"
    | (later) us where "pre = ?acts @ us" and "snd (run ?h1 es) = us @ SetState rid s # post"
    by (auto simp: append_eq_append_conv2 Cons_eq_append_conv append_eq_Cons_conv)
  then show ?case
  proof cases
    case here
    then have "SetState rid s \<in> set ?acts" by simp
    then show ?thesis using step_result_pending Cons.prems(2) by blast
  next
    case later
    from Cons.IH [OF later(2) Cons.prems(2)]
    consider (old) "rid \<in> fst ` set (pending ?h1)"
      | (seen) p1 p2 url where
          "us = p1 @ SetState rid \<lparr>data = JNull, loading = True, error = None\<rparr> # Fetch rid url # p2"
      by blast
    then show ?thesis
    proof cases
      case old
      from step_pending [OF old] show ?thesis
      proof
        assume "rid \<in> fst ` set (pending h)"
        then show ?thesis by simp
      next
        assume "\<exists>url. ?acts =
          [SetState rid \<lparr>data = JNull, loading = True, error = None\<rparr>, Fetch rid url]"
        then obtain url where
          "?acts = [SetState rid \<lparr>data = JNull, loading = True, error = None\<rparr>, Fetch rid url]"
          by blast
        then have "pre = [] @ SetState rid \<lparr>data = JNull, loading = True, error = None\<rparr>
                          # Fetch rid url # us"
          using later(1) by simp
        then show ?thesis by blast
      qed
    next
      case seen
      then have "pre = (?acts @ p1) @ SetState rid \<lparr>data = JNull, loading = True, error = None\<rparr>
                          # Fetch rid url # p2"
        using later(1) by simp
      then show ?thesis by blast
    qed
  qed
qed

text \<open>
  Claim C5. In the sequence of actions of any execution, a \<open>setState\<close> call that
  publishes the result of a retrieval (a state that is not loading) comes strictly after
  the \<open>setState\<close> call with form (a) and the \<open>fetch\<close> call of the same effect run.
\<close>

theorem loading_published_before_result:
  assumes "snd (run init_hook es) = pre @ SetState rid s # post" and "\<not> loading s"
  shows "\<exists>p1 p2 url. pre = p1 @ SetState rid \<lparr>data = JNull, loading = True, error = None\<rparr>
                              # Fetch rid url # p2"
  using run_loading_first [OF assms] by (simp add: init_hook_def)

theorem loading_published_before_result_witness:
  "snd (run init_hook [Render ''/todos/1'',
      Settle 0 (Inr \<lparr>ok = True, status = 200, json = Inr todo1\<rparr>)]) =
     [SetState 0 \<lparr>data = JNull, loading = True, error = None\<rparr>, Fetch 0 ''/todos/1'']
       @ SetState 0 \<lparr>data = todo1, loading = False, error = None\<rparr> # []
   \<and> \<not> loading \<lparr>data = todo1, loading = False, error = None\<rparr>
   \<and> (\<exists>p1 p2 url.
        [SetState 0 \<lparr>data = JNull, loading = True, error = None\<rparr>, Fetch 0 ''/todos/1''] =
          p1 @ SetState 0 \<lparr>data = JNull, loading = True, error = None\<rparr> # Fetch 0 url # p2)"
proof -
  have run: "snd (run init_hook [Render ''/todos/1'',
      Settle 0 (Inr \<lparr>ok = True, status = 200, json = Inr todo1\<rparr>)]) =
     [SetState 0 \<lparr>data = JNull, loading = True, error = None\<rparr>, Fetch 0 ''/todos/1'']
       @ SetState 0 \<lparr>data = todo1, loading = False, error = None\<rparr> # []"
    by (simp add: hook_eval)
  have res: "\<not> loading \<lparr>data = todo1, loading = False, error = None\<rparr>"
    by simp
  from loading_published_before_result [OF run res] run res show ?thesis
    by blast
qed

section \<open>Stale results\<close>

text \<open>
  Claim C1 as stated, that no \<open>setState\<close> call occurs for a retrieval that has been
  superseded or whose owner has been torn down, fails. After renders with
  \<open>/todos/1\<close> and then \<open>/todos/2\<close>, the first retrieval is stale, yet its
  settlement calls \<open>setState\<close> and its payload becomes the state shown for
  \<open>/todos/2\<close>. After a render and a teardown, the settlement still calls \<open>setState\<close>.
\<close>

theorem stale_result_is_published:
  "stale (fst (run init_hook [Render ''/todos/1'', Render ''/todos/2''])) 0
   \<and> deps (fst (run init_hook [Render ''/todos/1'', Render ''/todos/2''])) = Some ''/todos/2''
   \<and> snd (step (fst (run init_hook [Render ''/todos/1'', Render ''/todos/2'']))
        (Settle 0 (Inr \<lparr>ok = True, status = 200, json = Inr todo1\<rparr>))) =
       [SetState 0 \<lparr>data = todo1, loading = False, error = None\<rparr>]
   \<and> state (fst (step (fst (run init_hook [Render ''/todos/1'', Render ''/todos/2'']))
        (Settle 0 (Inr \<lparr>ok = True, status = 200, json = Inr todo1\<rparr>)))) =
       \<lparr>data = todo1, loading = False, error = None\<rparr>
   \<and> stale (fst (run init_hook [Render ''/todos/1'', Unmount])) 0
   \<and> snd (step (fst (run init_hook [Render ''/todos/1'', Unmount]))
        (Settle 0 (Inr \<lparr>ok = True, status = 200, json = Inr todo1\<rparr>))) =
       [SetState 0 \<lparr>data = todo1, loading = False, error = None\<rparr>]"
  by (simp add: hook_eval stale_def)

text \<open>
  Claim C1, amended. The hook has no staleness guard. Whenever an outstanding retrieval
  settles, \<open>setState\<close> is called exactly once with its result, whether or not a newer
  url has superseded it or the owner has been torn down; a mounted instance takes that
  result as its state, and after teardown the call is made but the state stays as it was.
  A result is withheld only while its retrieval is outstanding: a step publishes a
  result for a retrieval only when that retrieval settles.
\<close>

theorem settled_result_published_stale_or_not:
  assumes "map_of (pending h) rid = Some url"
  shows "(\<exists>s. fetch_chain fetched = ([s], Inr ())
            \<and> snd (step h (Settle rid fetched)) = [SetState rid s]
            \<and> \<not> loading s
            \<and> (alive h \<longrightarrow> state (fst (step h (Settle rid fetched))) = s)
            \<and> (\<not> alive h \<longrightarrow> state (fst (step h (Settle rid fetched))) = state h))
         \<and> (\<forall>e r s. SetState r s \<in> set (snd (step h e)) \<longrightarrow> \<not> loading s \<longrightarrow>
               (\<exists>f. e = Settle r f))"
proof -
  obtain s where s: "fetch_chain fetched = ([s], Inr ())" "\<not> loading s"
    using fetch_chain_result [of fetched] by blast
  have first: "\<exists>s. fetch_chain fetched = ([s], Inr ())
            \<and> snd (step h (Settle rid fetched)) = [SetState rid s]
            \<and> \<not> loading s
            \<and> (alive h \<longrightarrow> state (fst (step h (Settle rid fetched))) = s)
            \<and> (\<not> alive h \<longrightarrow> state (fst (step h (Settle rid fetched))) = state h)"
    unfolding step_Settle_pending [OF assms s(1)] using s by (simp add: setState_def)
  have second: "\<exists>f. e = Settle r f"
    if "SetState r t \<in> set (snd (step h e))" and "\<not> loading t" for e r t
    using step_actions [of h e] that by auto
  from first second show ?thesis by blast
qed

theorem settled_result_published_stale_or_not_witness:
  "map_of (pending (fst (run init_hook [Render ''/todos/1'', Render ''/todos/2'']))) 0 =
     Some ''/todos/1''
   \<and> stale (fst (run init_hook [Render ''/todos/1'', Render ''/todos/2''])) 0
   \<and> alive (fst (run init_hook [Render ''/todos/1'', Render ''/todos/2'']))
   \<and> (\<exists>s. fetch_chain (Inr \<lparr>ok = True, status = 200, json = Inr todo1\<rparr>) = ([s], Inr ())
        \<and> snd (step (fst (run init_hook [Render ''/todos/1'', Render ''/todos/2'']))
             (Settle 0 (Inr \<lparr>ok = True, status = 200, json = Inr todo1\<rparr>))) = [SetState 0 s]
        \<and> state (fst (step (fst (run init_hook [Render ''/todos/1'', Render ''/todos/2'']))
             (Settle 0 (Inr \<lparr>ok = True, status = 200, json = Inr todo1\<rparr>)))) = s)"
  using settled_result_published_stale_or_not
    [of "fst (run init_hook [Render ''/todos/1'', Render ''/todos/2''])" 0 "''/todos/1''"
        "Inr \<lparr>ok = True, status = 200, json = Inr todo1\<rparr>"]
  by (simp add: hook_eval stale_def)

end
